theory Spec2Isabelle
  imports Main
begin

section \<open>Exceptions, outcomes of remote calls and the observable trace\<close>

text \<open>
  The notebooks call the Amazon Forecast service through boto3. A remote call either
  returns or raises. The exceptions that matter to the loops below are
  \<^item> \<open>botocore.exceptions.ClientError\<close>, carrying \<open>e.response['Error']['Code']\<close>;
  \<^item> \<open>TimeoutError\<close>, raised by \<open>wait_till_delete\<close> itself;
  \<^item> \<open>ValueError\<close>, raised by \<open>time.sleep\<close> on a negative length;
  \<^item> anything else a callback may raise (not a \<open>ClientError\<close>).
\<close>

datatype exn =
    ClientError string
  | TimeoutError string
  | ValueError string
  | OtherException string

datatype 'a outcome = Returns 'a | Raises exn

text \<open>
  What a run does to the outside world, in order: invocations of the callback handed to
  \<open>wait_till_delete\<close>, service calls of the notebook cells, blocking sleeps, printed
  lines and the calls on \<open>util.StatusIndicator\<close> (whose code is not part of the sources
  at hand; its calls are recorded as opaque display events).
\<close>

datatype event =
    Invoke
  | Sleep int
  | Print string
  | CreateDatasetImportJob string
  | DescribeDatasetImportJob string
  | NewIndicator
  | Update string
  | End

text \<open>
  The world threaded through a loop: how often the operation has been invoked so far
  (this selects the outcome of its next invocation) and the trace of events so far.
\<close>

record world =
  calls :: nat
  trace :: "event list"

definition world0 :: world where
  "world0 = \<lparr>calls = 0, trace = []\<rparr>"

definition invoke :: "world \<Rightarrow> world" where
  "invoke w = w\<lparr>calls := Suc (calls w), trace := trace w @ [Invoke]\<rparr>"

definition emit :: "event \<Rightarrow> world \<Rightarrow> world" where
  "emit e w = w\<lparr>trace := trace w @ [e]\<rparr>"

text \<open>\<open>time.sleep(d)\<close>: blocks for \<open>d\<close> seconds; a negative \<open>d\<close> raises \<open>ValueError\<close>.\<close>

definition time_sleep :: "int \<Rightarrow> world \<Rightarrow> exn + world" where
  "time_sleep d w =
     (if d < 0 then Inl (ValueError ''sleep length must be non-negative'')
      else Inr (emit (Sleep d) w))"

section \<open>\<open>wait_till_delete\<close> (Cleanup.ipynb)\<close>

text \<open>
  \<^verbatim>\<open>
  def wait_till_delete(callback, check_time = 5, timeout = None):
      elapsed_time = 0
      while timeout is None or elapsed_time < timeout:
          try:
              out = callback()
          except botocore.exceptions.ClientError as e:
              # When given the resource not found exception, deletion has occured
              if e.response['Error']['Code'] == 'ResourceNotFoundException':
                  print('Successful delete')
                  return
              else:
                  raise
          time.sleep(check_time)  # units of seconds
          elapsed_time += check_time
      raise TimeoutError( "Forecast resource deletion timed-out." )
  \<close>
  The callback is a function from the number of earlier invocations to the outcome of
  the next one. With \<open>timeout = None\<close> the loop may run forever, so the loop is a partial
  function: \<open>None\<close> is a run that never returns.
\<close>

definition loop_test :: "int option \<Rightarrow> int \<Rightarrow> bool" where
  "loop_test timeout elapsed_time =
     (case timeout of None \<Rightarrow> True | Some t \<Rightarrow> elapsed_time < t)"

partial_function (option) wait_loop ::
  "(nat \<Rightarrow> 'a outcome) \<Rightarrow> int \<Rightarrow> int option \<Rightarrow> int \<Rightarrow> world \<Rightarrow> ((exn + unit) \<times> world) option"
where
  "wait_loop callback check_time timeout elapsed_time w =
     (if loop_test timeout elapsed_time then
        (case callback (calls w) of
           Raises e \<Rightarrow>
             (case e of
                ClientError code \<Rightarrow>
                  if code = ''ResourceNotFoundException''
                  then Some (Inr (), emit (Print ''Successful delete'') (invoke w))
                  else Some (Inl e, invoke w)
              | _ \<Rightarrow> Some (Inl e, invoke w))
         | Returns out \<Rightarrow>
             (case time_sleep check_time (invoke w) of
                Inl e \<Rightarrow> Some (Inl e, invoke w)
              | Inr w' \<Rightarrow> wait_loop callback check_time timeout (elapsed_time + check_time) w'))
      else Some (Inl (TimeoutError ''Forecast resource deletion timed-out.''), w))"

declare wait_loop.simps [code]

definition wait_till_delete ::
  "(nat \<Rightarrow> 'a outcome) \<Rightarrow> int \<Rightarrow> int option \<Rightarrow> ((exn + unit) \<times> world) option" where
  "wait_till_delete callback check_time timeout =
     wait_loop callback check_time timeout 0 world0"

text \<open>A scripted callback for concrete runs: the listed outcomes, then \<open>d\<close> for ever.\<close>

definition scripted :: "'a list \<Rightarrow> 'a \<Rightarrow> nat \<Rightarrow> 'a" where
  "scripted xs d i = (if i < length xs then xs ! i else d)"

text \<open>The world after \<open>k\<close> rounds of "invoke, return normally, sleep".\<close>

definition rounds :: "nat \<Rightarrow> int \<Rightarrow> world \<Rightarrow> world" where
  "rounds k check_time w =
     w\<lparr>calls := calls w + k,
       trace := trace w @ concat (replicate k [Invoke, Sleep check_time])\<rparr>"

text \<open>Counting the sleeps of a trace.\<close>

fun is_sleep :: "event \<Rightarrow> bool" where
  "is_sleep (Sleep d) = True"
| "is_sleep _ = False"

definition sleeps :: "event list \<Rightarrow> nat" where
  "sleeps tr = length (filter is_sleep tr)"

text \<open>
  How many rounds fit before a timeout \<open>T\<close> when each round adds \<open>c > 0\<close> to the elapsed
  time: the least \<open>n\<close> with \<open>T \<le> n * c\<close>.
\<close>

definition rounds_before_timeout :: "int \<Rightarrow> int \<Rightarrow> nat" where
  "rounds_before_timeout T c = nat ((T + c - 1) div c)"

section \<open>The status polling loop (what-if notebook, cells 25 and 26)\<close>

text \<open>
  \<^verbatim>\<open>
  status_indicator = util.StatusIndicator()

  while True:
      status = forecast.describe_dataset_import_job( DatasetImportJobArn = tts_dataset_import_job_arn )['Status']
      status_indicator.update(status)
      if status in ('ACTIVE', 'CREATE_FAILED'): break
      time.sleep(10)

  status_indicator.end()
  \<close>
  A describe call returns a response, of which the loop keeps the \<open>Status\<close> entry only;
  \<open>raw\<close> stands for the rest of the payload. The loop has no timeout and no exception
  handler: an exception of the describe call leaves the cell.
\<close>

record response =
  Status :: string
  raw :: string

definition describe_call :: "string \<Rightarrow> world \<Rightarrow> world" where
  "describe_call arn w =
     w\<lparr>calls := Suc (calls w), trace := trace w @ [DescribeDatasetImportJob arn]\<rparr>"

partial_function (option) poll_loop ::
  "(nat \<Rightarrow> response outcome) \<Rightarrow> string \<Rightarrow> world \<Rightarrow> ((exn + string) \<times> world) option"
where
  "poll_loop describe arn w =
     (case describe (calls w) of
        Raises e \<Rightarrow> Some (Inl e, describe_call arn w)
      | Returns r \<Rightarrow>
          if Status r \<in> set [''ACTIVE'', ''CREATE_FAILED'']
          then Some (Inr (Status r), emit (Update (Status r)) (describe_call arn w))
          else poll_loop describe arn
                 (emit (Sleep 10) (emit (Update (Status r)) (describe_call arn w))))"

declare poll_loop.simps [code]

text \<open>
  The whole cell, started after the events \<open>tr\<close>: a fresh indicator, the loop, and
  \<open>status_indicator.end()\<close> when the loop is left by \<open>break\<close>.
\<close>

definition poll_cell ::
  "(nat \<Rightarrow> response outcome) \<Rightarrow> string \<Rightarrow> event list \<Rightarrow> ((exn + string) \<times> event list) option"
where
  "poll_cell describe arn tr =
     (case poll_loop describe arn \<lparr>calls = 0, trace = tr @ [NewIndicator]\<rparr> of
        None \<Rightarrow> None
      | Some (Inl e, w) \<Rightarrow> Some (Inl e, trace w)
      | Some (Inr status, w) \<Rightarrow> Some (Inr status, trace w @ [End]))"

text \<open>The status seen at a poll, and the events of \<open>k\<close> polls that found the job in progress.\<close>

fun status_of :: "response outcome \<Rightarrow> string" where
  "status_of (Returns r) = Status r"
| "status_of (Raises e) = []"

definition pending :: "(nat \<Rightarrow> response outcome) \<Rightarrow> string \<Rightarrow> nat \<Rightarrow> event list" where
  "pending describe arn k =
     concat (map (\<lambda>i. [DescribeDatasetImportJob arn, Update (status_of (describe i)), Sleep 10])
                 [0..<k])"

text \<open>
  The same loop, cut after at most \<open>n\<close> passes through its body: the answer is \<open>None\<close>,
  with the world reached so far, while the loop is still running. It shows the events of
  a run whether the run ends or not.
\<close>

fun poll_passes ::
  "nat \<Rightarrow> (nat \<Rightarrow> response outcome) \<Rightarrow> string \<Rightarrow> world \<Rightarrow> (exn + string) option \<times> world"
where
  "poll_passes 0 describe arn w = (None, w)"
| "poll_passes (Suc n) describe arn w =
     (case describe (calls w) of
        Raises e \<Rightarrow> (Some (Inl e), describe_call arn w)
      | Returns r \<Rightarrow>
          if Status r \<in> set [''ACTIVE'', ''CREATE_FAILED'']
          then (Some (Inr (Status r)), emit (Update (Status r)) (describe_call arn w))
          else poll_passes n describe arn
                 (emit (Sleep 10) (emit (Update (Status r)) (describe_call arn w))))"

section \<open>The import cells of the what-if notebook (cells 23 to 26)\<close>

text \<open>
  Cell 23 creates the import job of the target time series, cell 24 the one of the
  related time series, cell 25 polls the first job and cell 26 the second. A cell that
  raises stops the run. The service is a parameter: what a create call answers for a job
  name, and what the successive describe calls answer for a job ARN.
\<close>

record service =
  create_dataset_import_job :: "string \<Rightarrow> string outcome"
  describe_dataset_import_job :: "string \<Rightarrow> nat \<Rightarrow> response outcome"

definition project :: string where
  "project = ''whatif_and_filling'' @ ''_'' @ ''0''"

definition tts_import_name :: string where
  "tts_import_name = project @ ''_tts_import''"

definition rts_import_name :: string where
  "rts_import_name = project @ ''_rts_import1''"

definition import_cells :: "service \<Rightarrow> ((exn + string \<times> string) \<times> event list) option" where
  "import_cells svc =
     (case create_dataset_import_job svc tts_import_name of
        Raises e \<Rightarrow> Some (Inl e, [CreateDatasetImportJob tts_import_name])
      | Returns tts_dataset_import_job_arn \<Rightarrow>
     (case create_dataset_import_job svc rts_import_name of
        Raises e \<Rightarrow>
          Some (Inl e, [CreateDatasetImportJob tts_import_name,
                        CreateDatasetImportJob rts_import_name])
      | Returns rts_dataset_import_job_arn \<Rightarrow>
     (case poll_cell (describe_dataset_import_job svc tts_dataset_import_job_arn)
             tts_dataset_import_job_arn
             [CreateDatasetImportJob tts_import_name, CreateDatasetImportJob rts_import_name] of
        None \<Rightarrow> None
      | Some (Inl e, tr) \<Rightarrow> Some (Inl e, tr)
      | Some (Inr tts_status, tr) \<Rightarrow>
     (case poll_cell (describe_dataset_import_job svc rts_dataset_import_job_arn)
             rts_dataset_import_job_arn tr of
        None \<Rightarrow> None
      | Some (Inl e, tr') \<Rightarrow> Some (Inl e, tr')
      | Some (Inr rts_status, tr') \<Rightarrow> Some (Inr (tts_status, rts_status), tr')))))"

text \<open>
  A service for concrete runs: every create call answers with an ARN made of the job
  name, every describe call finds the job \<open>ACTIVE\<close>.
\<close>

definition eager_service :: service where
  "eager_service =
     \<lparr>create_dataset_import_job = (\<lambda>name. Returns (''arn/'' @ name)),
      describe_dataset_import_job = (\<lambda>arn i. Returns \<lparr>Status = ''ACTIVE'', raw = arn\<rparr>)\<rparr>"

text \<open>Position of the first occurrence of an element (the length, if there is none).\<close>

definition index_of :: "'a \<Rightarrow> 'a list \<Rightarrow> nat" where
  "index_of x xs = length (takeWhile (\<lambda>y. y \<noteq> x) xs)"

section \<open>Order of the create and delete calls\<close>

text \<open>
  A resource is named by its kind and by the notebook variable that holds its ARN. A
  dependency is a pair \<open>(r, d)\<close>: resource \<open>r\<close> depends on resource \<open>d\<close>.
\<close>

datatype kind = DatasetGroup | Dataset | ImportJob | Predictor | Forecast | ExportJob

type_synonym resource = "kind \<times> string"





section \<open>The delete cells of Cleanup.ipynb\<close>










section \<open>Facts about \<open>wait_loop\<close>\<close>

lemma wait_loop_round:
  assumes "loop_test timeout el" and "callback (calls w) = Returns v" and "0 \<le> check_time"
  shows "wait_loop callback check_time timeout el w =
         wait_loop callback check_time timeout (el + check_time) (rounds 1 check_time w)"
  using assms
  by (subst wait_loop.simps)
     (simp add: time_sleep_def rounds_def invoke_def emit_def)

lemma rounds_Suc:
  "rounds k c (rounds 1 c w) = rounds (Suc k) c w"
  by (simp add: rounds_def)

lemma wait_loop_rounds:
  assumes "\<forall>i<k. \<exists>v. callback (calls w + i) = Returns v"
      and "k = 0 \<or> 0 \<le> check_time"
      and "k = 0 \<or> loop_test timeout (el + (int k - 1) * check_time)"
  shows "wait_loop callback check_time timeout el w =
         wait_loop callback check_time timeout (el + int k * check_time) (rounds k check_time w)"
  using assms
proof (induction k arbitrary: el w)
  case 0
  then show ?case by (simp add: rounds_def)
next
  case (Suc k)
  from Suc.prems(1) obtain v where v: "callback (calls w) = Returns v"
    by (metis add.right_neutral zero_less_Suc)
  have nonneg: "0 \<le> check_time"
    using Suc.prems(2) by simp
  have mono: "0 \<le> int k * check_time"
    using nonneg by simp
  have test_last: "loop_test timeout (el + int k * check_time)"
    using Suc.prems(3) by simp
  have test_now: "loop_test timeout el"
    using test_last mono by (auto simp: loop_test_def split: option.splits)
  have step: "wait_loop callback check_time timeout el w =
      wait_loop callback check_time timeout (el + check_time) (rounds 1 check_time w)"
    using test_now v nonneg by (rule wait_loop_round)
  have later: "\<forall>i<k. \<exists>v. callback (calls (rounds 1 check_time w) + i) = Returns v"
  proof (intro allI impI)
    fix i assume "i < k"
    then have "Suc i < Suc k" by simp
    with Suc.prems(1) have "\<exists>v. callback (calls w + Suc i) = Returns v" by blast
    then show "\<exists>v. callback (calls (rounds 1 check_time w) + i) = Returns v"
      by (simp add: rounds_def)
  qed
  have test_k: "k = 0 \<or> loop_test timeout (el + check_time + (int k - 1) * check_time)"
    using test_last by (simp add: algebra_simps)
  have rest: "wait_loop callback check_time timeout (el + check_time) (rounds 1 check_time w) =
        wait_loop callback check_time timeout (el + check_time + int k * check_time)
          (rounds k check_time (rounds 1 check_time w))"
    using later disjI2 [OF nonneg] test_k by (rule Suc.IH)
  have time: "el + check_time + int k * check_time = el + int (Suc k) * check_time"
    by (simp add: algebra_simps)
  show ?case
    unfolding step rest rounds_Suc time ..
qed

lemma wait_loop_not_found:
  assumes "loop_test timeout el"
      and "callback (calls w) = Raises (ClientError ''ResourceNotFoundException'')"
  shows "wait_loop callback check_time timeout el w =
         Some (Inr (), emit (Print ''Successful delete'') (invoke w))"
  using assms by (subst wait_loop.simps) simp

lemma wait_loop_client_error:
  assumes "loop_test timeout el"
      and "callback (calls w) = Raises (ClientError code)"
      and "code \<noteq> ''ResourceNotFoundException''"
  shows "wait_loop callback check_time timeout el w = Some (Inl (ClientError code), invoke w)"
  using assms by (subst wait_loop.simps) simp

lemma wait_loop_timed_out:
  assumes "\<not> loop_test timeout el"
  shows "wait_loop callback check_time timeout el w =
         Some (Inl (TimeoutError ''Forecast resource deletion timed-out.''), w)"
  using assms by (subst wait_loop.simps) simp

lemma sleeps_rounds: "sleeps (concat (replicate k [Invoke, Sleep c])) = k"
  by (induction k) (simp_all add: sleeps_def)

lemma sleeps_append: "sleeps (xs @ ys) = sleeps xs + sleeps ys"
  by (simp add: sleeps_def)

lemma rounds_before_timeout_reaches:
  fixes T c :: int
  assumes "0 < c"
  shows "T \<le> int (rounds_before_timeout T c) * c"
proof -
  define q r where "q = (T + c - 1) div c" and "r = (T + c - 1) mod c"
  have eq: "q * c + r = T + c - 1"
    unfolding q_def r_def by simp
  have r: "r < c"
    unfolding r_def using assms by simp
  show ?thesis
  proof (cases "0 \<le> q")
    case True
    then have "int (rounds_before_timeout T c) = q"
      by (simp add: rounds_before_timeout_def q_def)
    with eq r show ?thesis by simp
  next
    case False
    then have "q \<le> - 1" by simp
    then have "q * c \<le> (- 1) * c"
      using assms by (intro mult_right_mono) simp_all
    with eq r assms have "T \<le> 0" by linarith
    moreover from False have "int (rounds_before_timeout T c) = 0"
      by (simp add: rounds_before_timeout_def q_def)
    ultimately show ?thesis by simp
  qed
qed

lemma rounds_before_timeout_least:
  fixes T c :: int
  assumes "0 < c"
  shows "rounds_before_timeout T c = 0 \<or> (int (rounds_before_timeout T c) - 1) * c < T"
proof -
  define q r where "q = (T + c - 1) div c" and "r = (T + c - 1) mod c"
  have eq: "q * c + r = T + c - 1"
    unfolding q_def r_def by simp
  have r: "0 \<le> r"
    unfolding r_def using assms by simp
  show ?thesis
  proof (cases "0 < q")
    case True
    then have "int (rounds_before_timeout T c) = q"
      by (simp add: rounds_before_timeout_def q_def)
    moreover have "(q - 1) * c < T"
      using eq r by (simp add: algebra_simps)
    ultimately show ?thesis by simp
  next
    case False
    then show ?thesis
      by (simp add: rounds_before_timeout_def q_def)
  qed
qed

lemma wait_loop_sound:
  assumes "wait_loop callback c t el w = Some y"
  shows "calls w \<le> calls (snd y) \<and>
         (\<forall>i. calls w \<le> i \<longrightarrow> Suc i < calls (snd y) \<longrightarrow> (\<exists>v. callback i = Returns v)) \<and>
         (fst y = Inr () \<longrightarrow>
            calls w < calls (snd y) \<and>
            callback (calls (snd y) - 1) = Raises (ClientError ''ResourceNotFoundException''))"
proof -
  let ?P = "\<lambda>callback (c::int) (t::int option) (el::int) w y.
         calls w \<le> calls (snd y) \<and>
         (\<forall>i. calls w \<le> i \<longrightarrow> Suc i < calls (snd y) \<longrightarrow> (\<exists>v. callback i = Returns v)) \<and>
         (fst y = Inr () \<longrightarrow>
            calls w < calls (snd y) \<and>
            callback (calls (snd y) - 1) = Raises (ClientError ''ResourceNotFoundException''))"
  have "?P callback c t el w y"
  proof (rule wait_loop.raw_induct [where P = ?P, OF _ assms], goal_cases)
    case (1 loop callback c t el w y)
    show ?case
    proof (cases "loop_test t el")
      case False
      with 1(2) show ?thesis by auto
    next
      case True
      show ?thesis
      proof (cases "callback (calls w)")
        case (Raises e)
        with True 1(2) show ?thesis
          by (cases e) (auto simp: invoke_def emit_def split: if_splits)
      next
        case (Returns v)
        show ?thesis
        proof (cases "c < 0")
          case neg: True
          with True Returns 1(2) show ?thesis
            by (auto simp: time_sleep_def invoke_def)
        next
          case nonneg: False
          with True Returns 1(2)
          have rec: "loop callback c t (el + c) (emit (Sleep c) (invoke w)) = Some y"
            by (simp add: time_sleep_def)
          note ih = 1(1) [OF rec]
          have calls': "calls (emit (Sleep c) (invoke w)) = Suc (calls w)"
            by (simp add: emit_def invoke_def)
          show ?thesis
          proof (intro conjI allI impI)
            show "calls w \<le> calls (snd y)" using ih calls' by simp
          next
            fix i assume "calls w \<le> i" "Suc i < calls (snd y)"
            show "\<exists>v. callback i = Returns v"
            proof (cases "i = calls w")
              case True with Returns show ?thesis by simp
            next
              case False
              with \<open>calls w \<le> i\<close> have "Suc (calls w) \<le> i" by simp
              with ih calls' \<open>Suc i < calls (snd y)\<close> show ?thesis by simp
            qed
          next
            assume "fst y = Inr ()"
            with ih calls' show "calls w < calls (snd y)" by simp
          next
            assume "fst y = Inr ()"
            with ih show "callback (calls (snd y) - 1) =
                          Raises (ClientError ''ResourceNotFoundException'')" by simp
          qed
        qed
      qed
    qed
  qed
  then show ?thesis .
qed

lemma wait_loop_invokes:
  assumes "loop_test t el" and "wait_loop callback c t el w = Some y"
  shows "calls w < calls (snd y)"
proof (cases "callback (calls w)")
  case (Raises e)
  with assms show ?thesis
    by (subst (asm) wait_loop.simps)
       (cases e, auto simp: invoke_def emit_def split: if_splits)
next
  case (Returns v)
  show ?thesis
  proof (cases "c < 0")
    case True
    with assms Returns show ?thesis
      by (subst (asm) wait_loop.simps) (auto simp: time_sleep_def invoke_def)
  next
    case False
    with assms Returns
    have "wait_loop callback c t (el + c) (emit (Sleep c) (invoke w)) = Some y"
      by (subst (asm) wait_loop.simps) (simp add: time_sleep_def)
    then have "calls (emit (Sleep c) (invoke w)) \<le> calls (snd y)"
      by (simp add: wait_loop_sound)
    then show ?thesis by (simp add: emit_def invoke_def)
  qed
qed

lemma wait_till_delete_reaches:
  assumes "\<forall>i<k. \<exists>v. callback i = Returns v"
      and "k = 0 \<or> 0 \<le> check_time"
      and "k = 0 \<or> loop_test timeout ((int k - 1) * check_time)"
  shows "wait_till_delete callback check_time timeout =
         wait_loop callback check_time timeout (int k * check_time) (rounds k check_time world0)"
proof -
  have "\<forall>i<k. \<exists>v. callback (calls world0 + i) = Returns v"
    using assms(1) by (simp add: world0_def)
  moreover have "k = 0 \<or> loop_test timeout (0 + (int k - 1) * check_time)"
    using assms(3) by simp
  ultimately have "wait_loop callback check_time timeout 0 world0 =
      wait_loop callback check_time timeout (0 + int k * check_time) (rounds k check_time world0)"
    using assms(2) by (intro wait_loop_rounds)
  then show ?thesis by (simp add: wait_till_delete_def)
qed

lemma loop_test_earlier:
  assumes "loop_test timeout b" and "a \<le> b"
  shows "loop_test timeout a"
  using assms by (auto simp: loop_test_def split: option.splits)

lemma wait_till_delete_Nth_invocation:
  assumes "\<forall>i<k. \<exists>v. callback i = Returns v"
      and "k = 0 \<or> 0 \<le> check_time"
      and "loop_test timeout (int k * check_time)"
  shows "wait_till_delete callback check_time timeout =
         wait_loop callback check_time timeout (int k * check_time) (rounds k check_time world0)"
proof -
  have "k = 0 \<or> loop_test timeout ((int k - 1) * check_time)"
  proof (cases "k = 0")
    case True then show ?thesis by simp
  next
    case False
    with assms(2) have "0 \<le> check_time" by simp
    then have "(int k - 1) * check_time \<le> int k * check_time"
      by (simp add: algebra_simps)
    with assms(3) show ?thesis
      by (blast intro: loop_test_earlier)
  qed
  with assms(1,2) show ?thesis by (rule wait_till_delete_reaches)
qed

lemma wait_loop_made:
  assumes "wait_loop callback c t el w = Some y"
  shows "\<forall>j. calls w \<le> j \<longrightarrow> j < calls (snd y) \<longrightarrow>
           loop_test t (el + int (j - calls w) * c) \<and> (calls w < j \<longrightarrow> 0 \<le> c)"
proof -
  let ?P = "\<lambda>(callback :: nat \<Rightarrow> 'a outcome) (c::int) (t::int option) (el::int) w
              (y :: (exn + unit) \<times> world).
         \<forall>j. calls w \<le> j \<longrightarrow> j < calls (snd y) \<longrightarrow>
           loop_test t (el + int (j - calls w) * c) \<and> (calls w < j \<longrightarrow> 0 \<le> c)"
  have "?P callback c t el w y"
  proof (rule wait_loop.raw_induct [where P = ?P, OF _ assms], goal_cases)
    case (1 loop callback c t el w y)
    show ?case
    proof (cases "loop_test t el")
      case False
      with 1(2) show ?thesis by auto
    next
      case True
      show ?thesis
      proof (cases "callback (calls w)")
        case (Raises e)
        with True 1(2) have "calls (snd y) = Suc (calls w)"
          by (cases e) (auto simp: invoke_def emit_def split: if_splits)
        with True show ?thesis
          by (auto simp: less_Suc_eq)
      next
        case (Returns v)
        show ?thesis
        proof (cases "c < 0")
          case neg: True
          with True Returns 1(2) have "calls (snd y) = Suc (calls w)"
            by (auto simp: time_sleep_def invoke_def)
          with True show ?thesis
            by (auto simp: less_Suc_eq)
        next
          case nonneg: False
          with True Returns 1(2)
          have rec: "loop callback c t (el + c) (emit (Sleep c) (invoke w)) = Some y"
            by (simp add: time_sleep_def)
          note ih = 1(1) [OF rec]
          have calls': "calls (emit (Sleep c) (invoke w)) = Suc (calls w)"
            by (simp add: emit_def invoke_def)
          show ?thesis
          proof (intro allI impI)
            fix j assume lo: "calls w \<le> j" and hi: "j < calls (snd y)"
            show "loop_test t (el + int (j - calls w) * c) \<and> (calls w < j \<longrightarrow> 0 \<le> c)"
            proof (cases "j = calls w")
              case True
              with \<open>loop_test t el\<close> show ?thesis by simp
            next
              case False
              with lo have later: "Suc (calls w) \<le> j" by simp
              with ih hi calls'
              have "loop_test t (el + c + int (j - Suc (calls w)) * c)" by simp
              moreover have "el + c + int (j - Suc (calls w)) * c = el + int (j - calls w) * c"
              proof -
                from later have "int (j - calls w) = int (j - Suc (calls w)) + 1" by simp
                then show ?thesis by (simp add: algebra_simps)
              qed
              ultimately show ?thesis using nonneg by simp
            qed
          qed
        qed
      qed
    qed
  qed
  then show ?thesis .
qed

lemma wait_till_delete_confirms:
  assumes "1 \<le> N"
      and "\<forall>i<N - 1. \<exists>v. callback i = Returns v"
      and "callback (N - 1) = Raises (ClientError ''ResourceNotFoundException'')"
      and "N = 1 \<or> 0 \<le> check_time"
      and "loop_test timeout ((int N - 1) * check_time)"
  shows "wait_till_delete callback check_time timeout =
           Some (Inr (), \<lparr>calls = N,
             trace = concat (replicate (N - 1) [Invoke, Sleep check_time]) @
                     [Invoke, Print ''Successful delete'']\<rparr>)"
proof -
  obtain k where N: "N = Suc k"
    using assms(1) by (cases N) simp_all
  have ret: "\<forall>i<k. \<exists>v. callback i = Returns v"
    using assms(2) N by simp
  have nonneg: "k = 0 \<or> 0 \<le> check_time"
    using assms(4) N by simp
  have last_test: "loop_test timeout (int k * check_time)"
    using assms(5) N by simp
  have nf: "callback (calls (rounds k check_time world0)) =
            Raises (ClientError ''ResourceNotFoundException'')"
    using assms(3) N by (simp add: rounds_def world0_def)
  have "wait_till_delete callback check_time timeout =
        wait_loop callback check_time timeout (int k * check_time) (rounds k check_time world0)"
    using ret nonneg last_test by (rule wait_till_delete_Nth_invocation)
  also have "\<dots> = Some (Inr (), emit (Print ''Successful delete'')
                      (invoke (rounds k check_time world0)))"
    using last_test nf by (rule wait_loop_not_found)
  also have "emit (Print ''Successful delete'') (invoke (rounds k check_time world0)) =
        \<lparr>calls = N, trace = concat (replicate (N - 1) [Invoke, Sleep check_time]) @
                     [Invoke, Print ''Successful delete'']\<rparr>"
    by (simp add: emit_def invoke_def rounds_def world0_def N)
  finally show ?thesis .
qed

lemma wait_till_delete_Nth_made:
  assumes "wait_till_delete callback check_time timeout = Some (r, w)"
      and "1 \<le> N" and "N \<le> calls w"
  shows "(\<forall>i<N - 1. \<exists>v. callback i = Returns v) \<and> (N = 1 \<or> 0 \<le> check_time) \<and>
         loop_test timeout ((int N - 1) * check_time)"
proof -
  from assms(1) have run: "wait_loop callback check_time timeout 0 world0 = Some (r, w)"
    by (simp add: wait_till_delete_def)
  have start: "calls world0 = 0"
    by (simp add: world0_def)
  from wait_loop_sound [OF run]
  have sound: "\<forall>i. calls world0 \<le> i \<longrightarrow> Suc i < calls w \<longrightarrow> (\<exists>v. callback i = Returns v)"
    by simp
  from wait_loop_made [OF run]
  have made: "\<forall>j. calls world0 \<le> j \<longrightarrow> j < calls w \<longrightarrow>
           loop_test timeout (0 + int (j - calls world0) * check_time) \<and>
           (calls world0 < j \<longrightarrow> 0 \<le> check_time)"
    by simp
  have returned: "\<exists>v. callback i = Returns v" if "i < N - 1" for i
  proof -
    from that assms(3) have "Suc i < calls w" by simp
    moreover have "calls world0 \<le> i" unfolding start by simp
    ultimately show ?thesis using sound by blast
  qed
  have "N - 1 < calls w"
    using assms(2,3) by simp
  moreover have "calls world0 \<le> N - 1" unfolding start by simp
  ultimately have last: "loop_test timeout (0 + int (N - 1 - calls world0) * check_time) \<and>
                    (calls world0 < N - 1 \<longrightarrow> 0 \<le> check_time)"
    using made by blast
  have idx: "0 + int (N - 1 - calls world0) * check_time = (int N - 1) * check_time"
    unfolding start using assms(2) by (simp add: of_nat_diff)
  from last have test: "loop_test timeout ((int N - 1) * check_time)"
    unfolding idx by simp
  have "N = 1 \<or> 0 \<le> check_time"
  proof (cases "N = 1")
    case True then show ?thesis by simp
  next
    case False
    with assms(2) have "calls world0 < N - 1" unfolding start by simp
    with last show ?thesis by simp
  qed
  with returned test show ?thesis by blast
qed

section \<open>Delete-and-confirm: the "not found" answer\<close>

text \<open>
  Claim C3. Let the callback raise the client error \<open>ResourceNotFoundException\<close> on its
  \<open>N\<close>-th invocation. If that invocation takes place, which is when the \<open>N - 1\<close>
  invocations before it returned normally, the sleeps after them were accepted and the
  loop test held before it, then \<open>wait_till_delete\<close> returns normally after exactly \<open>N\<close>
  invocations and \<open>N - 1\<close> sleeps, the last event being the line it prints. And for every
  callback, \<open>check_time\<close> and \<open>timeout\<close>: a run that ends and has made the \<open>N\<close>-th
  invocation has this result and no other.
\<close>

theorem wait_till_delete_not_found:
  assumes "1 \<le> N"
      and "callback (N - 1) = Raises (ClientError ''ResourceNotFoundException'')"
  shows "((\<forall>i<N - 1. \<exists>v. callback i = Returns v) \<and> (N = 1 \<or> 0 \<le> check_time) \<and>
          loop_test timeout ((int N - 1) * check_time) \<longrightarrow>
            wait_till_delete callback check_time timeout =
              Some (Inr (), \<lparr>calls = N,
                trace = concat (replicate (N - 1) [Invoke, Sleep check_time]) @
                        [Invoke, Print ''Successful delete'']\<rparr>))
         \<and> (\<forall>r w. wait_till_delete callback check_time timeout = Some (r, w) \<longrightarrow>
                   N \<le> calls w \<longrightarrow>
                   r = Inr () \<and>
                   w = \<lparr>calls = N,
                        trace = concat (replicate (N - 1) [Invoke, Sleep check_time]) @
                                [Invoke, Print ''Successful delete'']\<rparr>)
         \<and> sleeps (concat (replicate (N - 1) [Invoke, Sleep check_time]) @
                     [Invoke, Print ''Successful delete'']) = N - 1"
proof (intro conjI allI impI)
  assume made: "(\<forall>i<N - 1. \<exists>v. callback i = Returns v) \<and> (N = 1 \<or> 0 \<le> check_time) \<and>
          loop_test timeout ((int N - 1) * check_time)"
  from made have ret: "\<forall>i<N - 1. \<exists>v. callback i = Returns v" by (rule conjunct1)
  from made have nonneg: "N = 1 \<or> 0 \<le> check_time" by (rule conjunct2 [THEN conjunct1])
  from made have test: "loop_test timeout ((int N - 1) * check_time)"
    by (rule conjunct2 [THEN conjunct2])
  show "wait_till_delete callback check_time timeout =
              Some (Inr (), \<lparr>calls = N,
                trace = concat (replicate (N - 1) [Invoke, Sleep check_time]) @
                        [Invoke, Print ''Successful delete'']\<rparr>)"
    using assms(1) ret assms(2) nonneg test by (rule wait_till_delete_confirms)
next
  fix r w
  assume run: "wait_till_delete callback check_time timeout = Some (r, w)"
     and reached: "N \<le> calls w"
  note made = wait_till_delete_Nth_made [OF run assms(1) reached]
  from made have ret: "\<forall>i<N - 1. \<exists>v. callback i = Returns v" by (rule conjunct1)
  from made have nonneg: "N = 1 \<or> 0 \<le> check_time" by (rule conjunct2 [THEN conjunct1])
  from made have test: "loop_test timeout ((int N - 1) * check_time)"
    by (rule conjunct2 [THEN conjunct2])
  have "wait_till_delete callback check_time timeout =
              Some (Inr (), \<lparr>calls = N,
                trace = concat (replicate (N - 1) [Invoke, Sleep check_time]) @
                        [Invoke, Print ''Successful delete'']\<rparr>)"
    using assms(1) ret assms(2) nonneg test by (rule wait_till_delete_confirms)
  with run have same: "(r, w) = (Inr (), \<lparr>calls = N,
                trace = concat (replicate (N - 1) [Invoke, Sleep check_time]) @
                        [Invoke, Print ''Successful delete'']\<rparr>)"
    by simp
  from same show "r = Inr ()" by simp
  from same show "w = \<lparr>calls = N,
              trace = concat (replicate (N - 1) [Invoke, Sleep check_time]) @
                      [Invoke, Print ''Successful delete'']\<rparr>"
    by simp
next
  show "sleeps (concat (replicate (N - 1) [Invoke, Sleep check_time]) @
                     [Invoke, Print ''Successful delete'']) = N - 1"
    by (simp add: sleeps_append sleeps_rounds) (simp add: sleeps_def)
qed

text \<open>
  The theorem at \<open>N = 2\<close> with the defaults of the notebook's calls (\<open>check_time = 5\<close>, no
  timeout).
\<close>

theorem wait_till_delete_not_found_witness:
  "wait_till_delete
     (scripted [Returns (), Raises (ClientError ''ResourceNotFoundException'')] (Returns ()))
     5 None =
   Some (Inr (), \<lparr>calls = 2, trace = [Invoke, Sleep 5, Invoke, Print ''Successful delete'']\<rparr>)"
  using wait_till_delete_not_found
    [of 2 "scripted [Returns (), Raises (ClientError ''ResourceNotFoundException'')] (Returns ())"
        5 None, THEN conjunct1]
  by (simp add: scripted_def loop_test_def)

section \<open>Delete-and-confirm: the timeout\<close>

text \<open>
  Claim C6. For a timeout \<open>T\<close> and a poll interval \<open>check_time > 0\<close>, if every invocation
  of the callback returns normally, \<open>wait_till_delete\<close> terminates by raising
  \<open>TimeoutError\<close> after exactly \<open>n\<close> invocations, each followed by one sleep, where \<open>n\<close> is
  the least number of increments of \<open>check_time\<close> that reaches \<open>T\<close>; nothing is invoked
  after the last sleep.
\<close>

theorem wait_till_delete_times_out:
  assumes "0 < check_time"
      and "\<forall>i<rounds_before_timeout T check_time. \<exists>v. callback i = Returns v"
  shows "wait_till_delete callback check_time (Some T) =
           Some (Inl (TimeoutError ''Forecast resource deletion timed-out.''),
                 \<lparr>calls = rounds_before_timeout T check_time,
                  trace = concat (replicate (rounds_before_timeout T check_time)
                                    [Invoke, Sleep check_time])\<rparr>)
         \<and> T \<le> int (rounds_before_timeout T check_time) * check_time
         \<and> (rounds_before_timeout T check_time = 0 \<or>
              (int (rounds_before_timeout T check_time) - 1) * check_time < T)"
proof -
  define n where "n = rounds_before_timeout T check_time"
  have reach: "T \<le> int n * check_time"
    unfolding n_def using assms(1) by (rule rounds_before_timeout_reaches)
  have least: "n = 0 \<or> (int n - 1) * check_time < T"
    unfolding n_def using assms(1) by (rule rounds_before_timeout_least)
  have ret: "\<forall>i<n. \<exists>v. callback i = Returns v"
    using assms(2) by (simp add: n_def)
  have nonneg: "n = 0 \<or> 0 \<le> check_time"
    using assms(1) by simp
  have test: "n = 0 \<or> loop_test (Some T) ((int n - 1) * check_time)"
    using least by (simp add: loop_test_def)
  have "wait_till_delete callback check_time (Some T) =
        wait_loop callback check_time (Some T) (int n * check_time) (rounds n check_time world0)"
    using ret nonneg test by (rule wait_till_delete_reaches)
  also have "\<dots> = Some (Inl (TimeoutError ''Forecast resource deletion timed-out.''),
                        rounds n check_time world0)"
    using reach by (intro wait_loop_timed_out) (simp add: loop_test_def)
  also have "rounds n check_time world0 =
             \<lparr>calls = n, trace = concat (replicate n [Invoke, Sleep check_time])\<rparr>"
    by (simp add: rounds_def world0_def)
  finally show ?thesis
    using reach least by (simp add: n_def)
qed

text \<open>The theorem at \<open>check_time = 5\<close> and \<open>timeout = 12\<close>: three invocations.\<close>

theorem wait_till_delete_times_out_witness:
  "wait_till_delete (scripted [] (Returns ())) 5 (Some 12) =
     Some (Inl (TimeoutError ''Forecast resource deletion timed-out.''),
           \<lparr>calls = 3,
            trace = [Invoke, Sleep 5, Invoke, Sleep 5, Invoke, Sleep 5]\<rparr>)"
  using wait_till_delete_times_out [of 5 12 "scripted [] (Returns ())"]
  by (simp add: scripted_def rounds_before_timeout_def eval_nat_numeral)

section \<open>Delete-and-confirm: other client errors\<close>

text \<open>
  Claim C7. If the \<open>N\<close>-th invocation of the callback inside \<open>wait_till_delete\<close> (the
  earlier ones returned normally and the loop test let it happen) raises a client error
  whose code is not \<open>ResourceNotFoundException\<close>, the function raises that very error:
  the callback has been invoked exactly \<open>N\<close> times, the trace ends with that invocation,
  and nothing is printed.
\<close>

theorem wait_till_delete_propagates_client_error:
  assumes "1 \<le> N"
      and "\<forall>i<N - 1. \<exists>v. callback i = Returns v"
      and "callback (N - 1) = Raises (ClientError code)"
      and "code \<noteq> ''ResourceNotFoundException''"
      and "N = 1 \<or> 0 \<le> check_time"
      and "loop_test timeout ((int N - 1) * check_time)"
  shows "wait_till_delete callback check_time timeout =
           Some (Inl (ClientError code),
                 \<lparr>calls = N,
                  trace = concat (replicate (N - 1) [Invoke, Sleep check_time]) @ [Invoke]\<rparr>)"
proof -
  obtain k where N: "N = Suc k"
    using assms(1) by (cases N) simp_all
  have ret: "\<forall>i<k. \<exists>v. callback i = Returns v"
    using assms(2) N by simp
  have nonneg: "k = 0 \<or> 0 \<le> check_time"
    using assms(5) N by simp
  have last_test: "loop_test timeout (int k * check_time)"
    using assms(6) N by simp
  have err: "callback (calls (rounds k check_time world0)) = Raises (ClientError code)"
    using assms(3) N by (simp add: rounds_def world0_def)
  have "wait_till_delete callback check_time timeout =
        wait_loop callback check_time timeout (int k * check_time) (rounds k check_time world0)"
    using ret nonneg last_test by (rule wait_till_delete_Nth_invocation)
  also have "\<dots> = Some (Inl (ClientError code), invoke (rounds k check_time world0))"
    using last_test err assms(4) by (rule wait_loop_client_error)
  also have "invoke (rounds k check_time world0) =
        \<lparr>calls = N, trace = concat (replicate (N - 1) [Invoke, Sleep check_time]) @ [Invoke]\<rparr>"
    by (simp add: invoke_def rounds_def world0_def N)
  finally show ?thesis .
qed

text \<open>
  The theorem at \<open>N = 3\<close>: two normal returns, then \<open>AccessDeniedException\<close>, under a
  timeout of 60 seconds.
\<close>

theorem wait_till_delete_propagates_client_error_witness:
  "wait_till_delete
     (scripted [Returns (), Returns (), Raises (ClientError ''AccessDeniedException'')]
        (Returns ()))
     5 (Some 60) =
   Some (Inl (ClientError ''AccessDeniedException''),
         \<lparr>calls = 3, trace = [Invoke, Sleep 5, Invoke, Sleep 5, Invoke]\<rparr>)"
  using wait_till_delete_propagates_client_error
    [of 3 "scripted [Returns (), Returns (), Raises (ClientError ''AccessDeniedException'')]
             (Returns ())"
        "''AccessDeniedException''" 5 "Some 60"]
  by (simp add: scripted_def loop_test_def eval_nat_numeral less_Suc_eq)

section \<open>Delete-and-confirm: a delete rejected by the service\<close>

text \<open>
  Claim C5, as the code has it. \<open>wait_till_delete\<close> knows nothing of dependents and has no
  error of its own for them: whenever the loop test holds at the start (no timeout, or
  a positive one) the remote delete call is invoked at least once before the function
  answers, and when the service rejects that first call with a client error other than
  \<open>ResourceNotFoundException\<close> (as it does for a resource still in use), the function
  raises that client error after this single call.
\<close>

theorem wait_till_delete_rejected_delete:
  assumes "loop_test timeout 0"
  shows "(\<forall>y. wait_till_delete callback check_time timeout = Some y \<longrightarrow> 1 \<le> calls (snd y))
       \<and> (\<forall>code. callback 0 = Raises (ClientError code) \<longrightarrow>
                  code \<noteq> ''ResourceNotFoundException'' \<longrightarrow>
                  wait_till_delete callback check_time timeout =
                    Some (Inl (ClientError code), \<lparr>calls = 1, trace = [Invoke]\<rparr>))"
proof (intro conjI allI impI)
  fix y
  assume "wait_till_delete callback check_time timeout = Some y"
  then have "wait_loop callback check_time timeout 0 world0 = Some y"
    by (simp add: wait_till_delete_def)
  with assms have "calls world0 < calls (snd y)"
    by (rule wait_loop_invokes)
  then show "1 \<le> calls (snd y)"
    by (simp add: world0_def)
next
  fix code
  assume raised: "callback 0 = Raises (ClientError code)"
     and other: "code \<noteq> ''ResourceNotFoundException''"
  from raised have "callback (calls world0) = Raises (ClientError code)"
    by (simp add: world0_def)
  with assms have "wait_loop callback check_time timeout 0 world0 =
                   Some (Inl (ClientError code), invoke world0)"
    using other by (rule wait_loop_client_error)
  then show "wait_till_delete callback check_time timeout =
             Some (Inl (ClientError code), \<lparr>calls = 1, trace = [Invoke]\<rparr>)"
    by (simp add: wait_till_delete_def invoke_def world0_def)
qed

text \<open>The theorem for a delete rejected with \<open>ResourceInUseException\<close>, timeout 30.\<close>

theorem wait_till_delete_rejected_delete_witness:
  "wait_till_delete
     (scripted [Raises (ClientError ''ResourceInUseException'')] (Returns ())) 5 (Some 30) =
   Some (Inl (ClientError ''ResourceInUseException''), \<lparr>calls = 1, trace = [Invoke]\<rparr>)"
  using wait_till_delete_rejected_delete
    [of "Some 30" "scripted [Raises (ClientError ''ResourceInUseException'')] (Returns ())" 5]
  by (simp add: scripted_def loop_test_def)

text \<open>
  Claim C5 as stated has the delete call not invoked and a \<open>DeleteBlockedByDependents\<close>
  error raised. A parent whose dependents still exist is deleted by the same call as any
  other resource; with the service answering \<open>ResourceInUseException\<close> for ever, the call
  is made once and the client error is what the caller sees.
\<close>

theorem wait_till_delete_blocked_counterexample:
  "wait_till_delete (scripted [] (Raises (ClientError ''ResourceInUseException''))) 5 None =
   Some (Inl (ClientError ''ResourceInUseException''), \<lparr>calls = 1, trace = [Invoke]\<rparr>)"
  by (simp add: wait_till_delete_def wait_loop.simps loop_test_def scripted_def world0_def
        invoke_def)

section \<open>Delete-and-confirm: what a normal return of the callback does\<close>

text \<open>
  Claim C10, as the code has it. A normal return of the callback never ends
  \<open>wait_till_delete\<close> by itself: whatever value it returned, the loop sleeps, adds
  \<open>check_time\<close> to the elapsed time and goes back to the loop test, which either lets the
  callback be invoked again or, when the timeout is reached, raises \<open>TimeoutError\<close>. And
  every normal return of \<open>wait_till_delete\<close> comes from an invocation that raised the
  client error \<open>ResourceNotFoundException\<close>, all earlier invocations having returned
  normally.
\<close>

theorem wait_till_delete_success_only_by_not_found:
  "(\<forall>u w. wait_till_delete callback check_time timeout = Some (Inr u, w) \<longrightarrow>
       1 \<le> calls w \<and>
       callback (calls w - 1) = Raises (ClientError ''ResourceNotFoundException'') \<and>
       (\<forall>i. Suc i < calls w \<longrightarrow> (\<exists>v. callback i = Returns v)))
   \<and> (\<forall>el w v. loop_test timeout el \<longrightarrow> callback (calls w) = Returns v \<longrightarrow> 0 \<le> check_time \<longrightarrow>
       wait_loop callback check_time timeout el w =
         (if loop_test timeout (el + check_time)
          then wait_loop callback check_time timeout (el + check_time)
                 (emit (Sleep check_time) (invoke w))
          else Some (Inl (TimeoutError ''Forecast resource deletion timed-out.''),
                     emit (Sleep check_time) (invoke w))))"
proof (intro conjI allI impI)
  fix u w
  assume "wait_till_delete callback check_time timeout = Some (Inr u, w)"
  then have run: "wait_loop callback check_time timeout 0 world0 = Some (Inr (), w)"
    by (simp add: wait_till_delete_def)
  note sound = wait_loop_sound [OF run]
  from sound show "1 \<le> calls w"
    by (simp add: world0_def)
  from sound show "callback (calls w - 1) = Raises (ClientError ''ResourceNotFoundException'')"
    by simp
  fix i assume "Suc i < calls w"
  with sound show "\<exists>v. callback i = Returns v"
    by (simp add: world0_def)
next
  fix el and w :: world and v
  assume test: "loop_test timeout el"
     and ret: "callback (calls w) = Returns v"
     and nonneg: "0 \<le> check_time"
  have step: "wait_loop callback check_time timeout el w =
        wait_loop callback check_time timeout (el + check_time)
          (emit (Sleep check_time) (invoke w))"
    using test ret nonneg
    by (subst wait_loop.simps) (simp add: time_sleep_def)
  show "wait_loop callback check_time timeout el w =
         (if loop_test timeout (el + check_time)
          then wait_loop callback check_time timeout (el + check_time)
                 (emit (Sleep check_time) (invoke w))
          else Some (Inl (TimeoutError ''Forecast resource deletion timed-out.''),
                     emit (Sleep check_time) (invoke w)))"
    unfolding step by (simp add: wait_loop_timed_out)
qed

text \<open>
  The theorem on a run that returns normally: the second invocation raised "not found"
  and the first returned normally.
\<close>

theorem wait_till_delete_success_only_by_not_found_witness:
  "wait_till_delete
     (scripted [Returns ''ok'', Raises (ClientError ''ResourceNotFoundException'')]
        (Returns ''ok'')) 5 None =
     Some (Inr (), \<lparr>calls = 2, trace = [Invoke, Sleep 5, Invoke, Print ''Successful delete'']\<rparr>)
   \<and> scripted [Returns ''ok'', Raises (ClientError ''ResourceNotFoundException'')]
        (Returns ''ok'') (2 - 1) = Raises (ClientError ''ResourceNotFoundException'')
   \<and> (\<exists>v. scripted [Returns ''ok'', Raises (ClientError ''ResourceNotFoundException'')]
        (Returns ''ok'') 0 = Returns v)"
proof -
  let ?cb = "scripted [Returns ''ok'', Raises (ClientError ''ResourceNotFoundException'')]
               (Returns ''ok'')"
  have run: "wait_till_delete ?cb 5 None =
     Some (Inr (), \<lparr>calls = 2, trace = [Invoke, Sleep 5, Invoke, Print ''Successful delete'']\<rparr>)"
    by (simp add: wait_till_delete_def wait_loop.simps loop_test_def scripted_def world0_def
          invoke_def emit_def time_sleep_def)
  from wait_till_delete_success_only_by_not_found [of ?cb 5 None] run
  have "?cb (calls \<lparr>calls = 2, trace = [Invoke, Sleep 5, Invoke, Print ''Successful delete'']\<rparr> - 1)
          = Raises (ClientError ''ResourceNotFoundException'')
        \<and> (\<forall>i. Suc i < calls \<lparr>calls = 2, trace = [Invoke, Sleep 5, Invoke, Print ''Successful delete'']\<rparr>
              \<longrightarrow> (\<exists>v. ?cb i = Returns v))"
    by blast
  then have "?cb (2 - 1) = Raises (ClientError ''ResourceNotFoundException'')
        \<and> (\<exists>v. ?cb 0 = Returns v)"
    by simp
  with run show ?thesis by simp
qed

text \<open>
  Claim C10 as stated has the loop invoke the callback again after every normal return.
  With \<open>check_time = 5\<close> and \<open>timeout = 5\<close> the only invocation returns normally, the
  loop sleeps, and \<open>TimeoutError\<close> is raised without a second invocation.
\<close>

theorem wait_till_delete_normal_return_counterexample:
  "wait_till_delete (scripted [] (Returns ''ok'')) 5 (Some 5) =
   Some (Inl (TimeoutError ''Forecast resource deletion timed-out.''),
         \<lparr>calls = 1, trace = [Invoke, Sleep 5]\<rparr>)"
  by (simp add: wait_till_delete_def wait_loop.simps loop_test_def scripted_def world0_def
        invoke_def emit_def time_sleep_def)

section \<open>Facts about \<open>poll_loop\<close>\<close>

lemma poll_loop_continue:
  assumes "describe (calls w) = Returns r"
      and "Status r \<notin> set [''ACTIVE'', ''CREATE_FAILED'']"
  shows "poll_loop describe arn w =
         poll_loop describe arn
           (w\<lparr>calls := Suc (calls w),
              trace := trace w @ [DescribeDatasetImportJob arn, Update (Status r), Sleep 10]\<rparr>)"
  using assms
  by (subst poll_loop.simps) (simp add: describe_call_def emit_def)

lemma poll_loop_break:
  assumes "describe (calls w) = Returns r"
      and "Status r \<in> set [''ACTIVE'', ''CREATE_FAILED'']"
  shows "poll_loop describe arn w =
         Some (Inr (Status r),
               w\<lparr>calls := Suc (calls w),
                  trace := trace w @ [DescribeDatasetImportJob arn, Update (Status r)]\<rparr>)"
  using assms
  by (subst poll_loop.simps) (simp add: describe_call_def emit_def)

lemma pending_Suc:
  "pending describe arn (Suc k) =
   pending describe arn k @
     [DescribeDatasetImportJob arn, Update (status_of (describe k)), Sleep 10]"
  by (simp add: pending_def)

lemma sleeps_pending: "sleeps (pending describe arn k) = k"
  by (induction k) (simp_all add: pending_Suc sleeps_append, simp_all add: pending_def sleeps_def)

lemma poll_loop_pending:
  assumes "\<forall>i<k. \<exists>r. describe i = Returns r \<and> Status r \<notin> set [''ACTIVE'', ''CREATE_FAILED'']"
  shows "poll_loop describe arn \<lparr>calls = 0, trace = tr\<rparr> =
         poll_loop describe arn \<lparr>calls = k, trace = tr @ pending describe arn k\<rparr>"
  using assms
proof (induction k)
  case 0
  show ?case by (simp add: pending_def)
next
  case (Suc k)
  then have upto: "poll_loop describe arn \<lparr>calls = 0, trace = tr\<rparr> =
                   poll_loop describe arn \<lparr>calls = k, trace = tr @ pending describe arn k\<rparr>"
    by simp
  from Suc.prems obtain r where r: "describe k = Returns r"
      and pend: "Status r \<notin> set [''ACTIVE'', ''CREATE_FAILED'']"
    by blast
  have "poll_loop describe arn \<lparr>calls = k, trace = tr @ pending describe arn k\<rparr> =
        poll_loop describe arn
          (\<lparr>calls = k, trace = tr @ pending describe arn k\<rparr>
             \<lparr>calls := Suc (calls \<lparr>calls = k, trace = tr @ pending describe arn k\<rparr>),
              trace := trace \<lparr>calls = k, trace = tr @ pending describe arn k\<rparr> @
                 [DescribeDatasetImportJob arn, Update (Status r), Sleep 10]\<rparr>)"
    using pend by (intro poll_loop_continue) (simp add: r)
  also have "\<dots> = poll_loop describe arn
                     \<lparr>calls = Suc k, trace = tr @ pending describe arn (Suc k)\<rparr>"
    by (simp add: pending_Suc r)
  finally show ?case
    using upto by simp
qed

lemma poll_loop_first_terminal:
  assumes "1 \<le> N"
      and "\<forall>i<N - 1. \<exists>r. describe i = Returns r \<and> Status r \<notin> set [''ACTIVE'', ''CREATE_FAILED'']"
      and "describe (N - 1) = Returns snap"
      and "Status snap \<in> set [''ACTIVE'', ''CREATE_FAILED'']"
  shows "poll_loop describe arn \<lparr>calls = 0, trace = tr\<rparr> =
         Some (Inr (Status snap),
               \<lparr>calls = N,
                trace = tr @ pending describe arn (N - 1) @
                        [DescribeDatasetImportJob arn, Update (Status snap)]\<rparr>)"
proof -
  obtain k where N: "N = Suc k"
    using assms(1) by (cases N) simp_all
  have "poll_loop describe arn \<lparr>calls = 0, trace = tr\<rparr> =
        poll_loop describe arn \<lparr>calls = k, trace = tr @ pending describe arn k\<rparr>"
    using assms(2) unfolding N by (intro poll_loop_pending) simp
  also have "\<dots> = Some (Inr (Status snap),
        \<lparr>calls = k, trace = tr @ pending describe arn k\<rparr>
          \<lparr>calls := Suc (calls \<lparr>calls = k, trace = tr @ pending describe arn k\<rparr>),
           trace := trace \<lparr>calls = k, trace = tr @ pending describe arn k\<rparr> @
              [DescribeDatasetImportJob arn, Update (Status snap)]\<rparr>)"
    using assms(4) by (intro poll_loop_break) (use assms(3) N in simp)
  finally show ?thesis
    by (simp add: N)
qed

lemma poll_loop_sound:
  assumes "poll_loop describe arn w = Some y"
  shows "calls w < calls (snd y) \<and>
         (\<exists>tr. trace (snd y) = trace w @ DescribeDatasetImportJob arn # tr)"
proof -
  let ?P = "\<lambda>(describe :: nat \<Rightarrow> response outcome) arn w (y :: (exn + string) \<times> world).
         calls w < calls (snd y) \<and>
         (\<exists>tr. trace (snd y) = trace w @ DescribeDatasetImportJob arn # tr)"
  have "?P describe arn w y"
  proof (rule poll_loop.raw_induct [where P = ?P, OF _ assms], goal_cases)
    case (1 loop describe arn w y)
    show ?case
    proof (cases "describe (calls w)")
      case (Raises e)
      with 1(2) show ?thesis
        by (auto simp: describe_call_def)
    next
      case (Returns r)
      show ?thesis
      proof (cases "Status r \<in> set [''ACTIVE'', ''CREATE_FAILED'']")
        case True
        with Returns 1(2) show ?thesis
          by (auto simp: describe_call_def emit_def)
      next
        case False
        with Returns 1(2)
        have rec: "loop describe arn
                     (emit (Sleep 10) (emit (Update (Status r)) (describe_call arn w))) = Some y"
          by simp
        from 1(1) [OF rec] show ?thesis
          by (auto simp: describe_call_def emit_def)
      qed
    qed
  qed
  then show ?thesis .
qed

section \<open>The polling loop: reaching \<open>ACTIVE\<close>\<close>

text \<open>
  Claim C1, as the code has it. Let the first \<open>N - 1\<close> describe calls answer with states
  other than \<open>ACTIVE\<close> and \<open>CREATE_FAILED\<close>, and the \<open>N\<close>-th with snapshot \<open>snap\<close> in state
  \<open>ACTIVE\<close>. Then the loop makes exactly \<open>N\<close> describe calls and ends with the status of
  \<open>snap\<close>, which is all it keeps of the answer; it sleeps once after each of the first
  \<open>N - 1\<close> polls and not after the last, so a first poll that is already \<open>ACTIVE\<close> ends
  the loop without any sleep.
\<close>

theorem poll_loop_active:
  assumes "1 \<le> N"
      and "\<forall>i<N - 1. \<exists>r. describe i = Returns r \<and>
                       Status r \<noteq> ''ACTIVE'' \<and> Status r \<noteq> ''CREATE_FAILED''"
      and "describe (N - 1) = Returns snap"
      and "Status snap = ''ACTIVE''"
  shows "poll_loop describe arn \<lparr>calls = 0, trace = tr\<rparr> =
           Some (Inr (Status snap),
                 \<lparr>calls = N,
                  trace = tr @ pending describe arn (N - 1) @
                          [DescribeDatasetImportJob arn, Update ''ACTIVE'']\<rparr>)
         \<and> sleeps (pending describe arn (N - 1) @
                    [DescribeDatasetImportJob arn, Update ''ACTIVE'']) = N - 1"
proof -
  have pend: "\<forall>i<N - 1. \<exists>r. describe i = Returns r \<and>
                  Status r \<notin> set [''ACTIVE'', ''CREATE_FAILED'']"
    using assms(2) by simp
  have final: "Status snap \<in> set [''ACTIVE'', ''CREATE_FAILED'']"
    using assms(4) by simp
  have "poll_loop describe arn \<lparr>calls = 0, trace = tr\<rparr> =
         Some (Inr (Status snap),
               \<lparr>calls = N,
                trace = tr @ pending describe arn (N - 1) @
                        [DescribeDatasetImportJob arn, Update (Status snap)]\<rparr>)"
    using assms(1) pend assms(3) final by (rule poll_loop_first_terminal)
  moreover have "sleeps (pending describe arn (N - 1) @
                    [DescribeDatasetImportJob arn, Update ''ACTIVE'']) = N - 1"
    by (simp add: sleeps_append sleeps_pending) (simp add: sleeps_def)
  ultimately show ?thesis
    using assms(4) by simp
qed

text \<open>
  The theorem on the scenario of the specification: \<open>CREATE_IN_PROGRESS\<close> twice, then
  \<open>ACTIVE\<close>; three describe calls and two sleeps.
\<close>

theorem poll_loop_active_witness:
  "poll_loop
     (scripted [Returns \<lparr>Status = ''CREATE_IN_PROGRESS'', raw = ''a''\<rparr>,
                Returns \<lparr>Status = ''CREATE_IN_PROGRESS'', raw = ''b''\<rparr>,
                Returns \<lparr>Status = ''ACTIVE'', raw = ''c''\<rparr>]
        (Raises (OtherException ''no more answers'')))
     ''arn'' \<lparr>calls = 0, trace = []\<rparr> =
   Some (Inr ''ACTIVE'',
         \<lparr>calls = 3,
          trace = [DescribeDatasetImportJob ''arn'', Update ''CREATE_IN_PROGRESS'', Sleep 10,
                   DescribeDatasetImportJob ''arn'', Update ''CREATE_IN_PROGRESS'', Sleep 10,
                   DescribeDatasetImportJob ''arn'', Update ''ACTIVE'']\<rparr>)"
  using poll_loop_active
    [of 3 "scripted [Returns \<lparr>Status = ''CREATE_IN_PROGRESS'', raw = ''a''\<rparr>,
                Returns \<lparr>Status = ''CREATE_IN_PROGRESS'', raw = ''b''\<rparr>,
                Returns \<lparr>Status = ''ACTIVE'', raw = ''c''\<rparr>]
        (Raises (OtherException ''no more answers''))"
        "\<lparr>Status = ''ACTIVE'', raw = ''c''\<rparr>" "''arn''" "[]"]
  by (simp add: scripted_def pending_def eval_nat_numeral less_Suc_eq)

text \<open>
  Claim C1 as stated has the poller return the \<open>N\<close>-th snapshot. Two different answers in
  state \<open>ACTIVE\<close> leave the same result and the same events: what the loop keeps is the
  status, the rest of the answer is dropped.
\<close>

theorem poll_loop_active_counterexample:
  "poll_loop (scripted [] (Returns \<lparr>Status = ''ACTIVE'', raw = ''first answer''\<rparr>))
     ''arn'' \<lparr>calls = 0, trace = []\<rparr> =
     Some (Inr ''ACTIVE'',
           \<lparr>calls = 1, trace = [DescribeDatasetImportJob ''arn'', Update ''ACTIVE'']\<rparr>)
   \<and> poll_loop (scripted [] (Returns \<lparr>Status = ''ACTIVE'', raw = ''second answer''\<rparr>))
     ''arn'' \<lparr>calls = 0, trace = []\<rparr> =
     Some (Inr ''ACTIVE'',
           \<lparr>calls = 1, trace = [DescribeDatasetImportJob ''arn'', Update ''ACTIVE'']\<rparr>)"
  by (simp add: poll_loop.simps scripted_def describe_call_def emit_def)

section \<open>The polling loop: reaching \<open>CREATE_FAILED\<close>\<close>

text \<open>
  Claim C2, as the code has it. Let the first \<open>N - 1\<close> describe calls answer with states
  other than \<open>ACTIVE\<close> and \<open>CREATE_FAILED\<close>, and the \<open>N\<close>-th with snapshot \<open>snap\<close> in state
  \<open>CREATE_FAILED\<close>. Then the loop makes exactly \<open>N\<close> describe calls and is left by
  \<open>break\<close>, as for \<open>ACTIVE\<close>: no exception is raised, the variable \<open>status\<close> holds
  \<open>CREATE_FAILED\<close>, and the cell goes on to \<open>status_indicator.end()\<close>.
\<close>

theorem poll_cell_create_failed:
  assumes "1 \<le> N"
      and "\<forall>i<N - 1. \<exists>r. describe i = Returns r \<and>
                       Status r \<noteq> ''ACTIVE'' \<and> Status r \<noteq> ''CREATE_FAILED''"
      and "describe (N - 1) = Returns snap"
      and "Status snap = ''CREATE_FAILED''"
  shows "poll_loop describe arn \<lparr>calls = 0, trace = tr\<rparr> =
           Some (Inr ''CREATE_FAILED'',
                 \<lparr>calls = N,
                  trace = tr @ pending describe arn (N - 1) @
                          [DescribeDatasetImportJob arn, Update ''CREATE_FAILED'']\<rparr>)
         \<and> poll_cell describe arn tr =
           Some (Inr ''CREATE_FAILED'',
                 tr @ [NewIndicator] @ pending describe arn (N - 1) @
                 [DescribeDatasetImportJob arn, Update ''CREATE_FAILED'', End])"
proof -
  have pend: "\<forall>i<N - 1. \<exists>r. describe i = Returns r \<and>
                  Status r \<notin> set [''ACTIVE'', ''CREATE_FAILED'']"
    using assms(2) by simp
  have final: "Status snap \<in> set [''ACTIVE'', ''CREATE_FAILED'']"
    using assms(4) by simp
  have loop: "poll_loop describe arn \<lparr>calls = 0, trace = tr'\<rparr> =
         Some (Inr (Status snap),
               \<lparr>calls = N,
                trace = tr' @ pending describe arn (N - 1) @
                        [DescribeDatasetImportJob arn, Update (Status snap)]\<rparr>)" for tr'
    using assms(1) pend assms(3) final by (rule poll_loop_first_terminal)
  have "poll_cell describe arn tr =
           Some (Inr ''CREATE_FAILED'',
                 tr @ [NewIndicator] @ pending describe arn (N - 1) @
                 [DescribeDatasetImportJob arn, Update ''CREATE_FAILED'', End])"
    by (simp add: poll_cell_def loop assms(4))
  with loop [of tr] show ?thesis
    by (simp add: assms(4))
qed

text \<open>The theorem at \<open>N = 1\<close>: the first poll already finds \<open>CREATE_FAILED\<close>.\<close>

theorem poll_cell_create_failed_witness:
  "poll_cell (scripted [] (Returns \<lparr>Status = ''CREATE_FAILED'', raw = ''bad schema''\<rparr>))
     ''arn'' [] =
   Some (Inr ''CREATE_FAILED'',
         [NewIndicator, DescribeDatasetImportJob ''arn'', Update ''CREATE_FAILED'', End])"
  using poll_cell_create_failed
    [of 1 "scripted [] (Returns \<lparr>Status = ''CREATE_FAILED'', raw = ''bad schema''\<rparr>)"
        "\<lparr>Status = ''CREATE_FAILED'', raw = ''bad schema''\<rparr>" "''arn''" "[]"]
  by (simp add: scripted_def pending_def)

text \<open>
  Claim C2 as stated has the poller fail with \<open>RemoteOperationFailed\<close>. On the scenario of
  the specification, \<open>CREATE_IN_PROGRESS\<close> then \<open>CREATE_FAILED\<close>, the cell makes its two
  describe calls and completes normally with status \<open>CREATE_FAILED\<close>.
\<close>

theorem poll_cell_create_failed_counterexample:
  "poll_cell
     (scripted [Returns \<lparr>Status = ''CREATE_IN_PROGRESS'', raw = ''a''\<rparr>,
                Returns \<lparr>Status = ''CREATE_FAILED'', raw = ''b''\<rparr>]
        (Raises (OtherException ''no more answers'')))
     ''arn'' [] =
   Some (Inr ''CREATE_FAILED'',
         [NewIndicator,
          DescribeDatasetImportJob ''arn'', Update ''CREATE_IN_PROGRESS'', Sleep 10,
          DescribeDatasetImportJob ''arn'', Update ''CREATE_FAILED'', End])"
  by (simp add: poll_cell_def poll_loop.simps scripted_def describe_call_def emit_def)

lemma poll_passes_grows:
  "calls w \<le> calls (snd (poll_passes n describe arn w)) \<and>
   (\<exists>tr. trace (snd (poll_passes n describe arn w)) = trace w @ tr)"
proof (induction n arbitrary: w)
  case 0
  show ?case by simp
next
  case (Suc n)
  show ?case
  proof (cases "describe (calls w)")
    case (Raises e)
    then show ?thesis by (simp add: describe_call_def)
  next
    case (Returns r)
    show ?thesis
    proof (cases "Status r \<in> set [''ACTIVE'', ''CREATE_FAILED'']")
      case True
      with Returns show ?thesis by (simp add: describe_call_def emit_def)
    next
      case False
      let ?w = "emit (Sleep 10) (emit (Update (Status r)) (describe_call arn w))"
      from Returns False
      have eq: "poll_passes (Suc n) describe arn w = poll_passes n describe arn ?w"
        by simp
      from Suc.IH [of ?w] obtain tr where
        "calls ?w \<le> calls (snd (poll_passes n describe arn ?w))"
        "trace (snd (poll_passes n describe arn ?w)) = trace ?w @ tr"
        by blast
      then show ?thesis
        unfolding eq by (simp add: describe_call_def emit_def)
    qed
  qed
qed

lemma poll_passes_finished:
  assumes "poll_passes n describe arn w = (Some res, w')"
  shows "poll_loop describe arn w = Some (res, w')"
  using assms
proof (induction n arbitrary: w)
  case 0
  then show ?case by simp
next
  case (Suc n)
  show ?case
  proof (cases "describe (calls w)")
    case (Raises e)
    with Suc.prems show ?thesis
      by (subst poll_loop.simps) simp
  next
    case (Returns r)
    show ?thesis
    proof (cases "Status r \<in> set [''ACTIVE'', ''CREATE_FAILED'']")
      case True
      with Returns Suc.prems show ?thesis
        by (subst poll_loop.simps) simp
    next
      case False
      let ?w = "emit (Sleep 10) (emit (Update (Status r)) (describe_call arn w))"
      from Returns False Suc.prems
      have "poll_passes n describe arn ?w = (Some res, w')"
        by simp
      then have "poll_loop describe arn ?w = Some (res, w')"
        by (rule Suc.IH)
      with Returns False show ?thesis
        by (subst poll_loop.simps) simp
    qed
  qed
qed

lemma poll_loop_passes:
  assumes "poll_loop describe arn w = Some y"
  shows "\<exists>n. poll_passes n describe arn w = (Some (fst y), snd y)"
proof -
  let ?P = "\<lambda>(describe :: nat \<Rightarrow> response outcome) arn w (y :: (exn + string) \<times> world).
         \<exists>n. poll_passes n describe arn w = (Some (fst y), snd y)"
  have "?P describe arn w y"
  proof (rule poll_loop.raw_induct [where P = ?P, OF _ assms], goal_cases)
    case (1 loop describe arn w y)
    show ?case
    proof (cases "describe (calls w)")
      case (Raises e)
      with 1(2) have "poll_passes (Suc 0) describe arn w = (Some (fst y), snd y)"
        by auto
      then show ?thesis ..
    next
      case (Returns r)
      show ?thesis
      proof (cases "Status r \<in> set [''ACTIVE'', ''CREATE_FAILED'']")
        case True
        with Returns 1(2) have "poll_passes (Suc 0) describe arn w = (Some (fst y), snd y)"
          by auto
        then show ?thesis ..
      next
        case False
        let ?w = "emit (Sleep 10) (emit (Update (Status r)) (describe_call arn w))"
        from False Returns 1(2) have rec: "loop describe arn ?w = Some y"
          by simp
        from 1(1) [OF rec] obtain n where
          "poll_passes n describe arn ?w = (Some (fst y), snd y)" ..
        with Returns False
        have "poll_passes (Suc n) describe arn w = (Some (fst y), snd y)"
          by simp
        then show ?thesis ..
      qed
    qed
  qed
  then show ?thesis .
qed

section \<open>The polling loop: any other state\<close>

text \<open>
  Claim C8. When a describe call answers with a state that is neither \<open>ACTIVE\<close> nor
  \<open>CREATE_FAILED\<close>, whatever it is, the loop does not end at that pass: after one pass it
  is still running and has slept 10 seconds, and after any further pass it has made
  another describe call right after that sleep. The passes are those of the loop itself:
  the loop ends with a result exactly when some number of passes ends with it, and the
  loop from here is the loop resumed after the sleep.
\<close>

theorem poll_loop_other_state_continues:
  assumes "describe (calls w) = Returns r"
      and "Status r \<noteq> ''ACTIVE''"
      and "Status r \<noteq> ''CREATE_FAILED''"
  shows "poll_passes 1 describe arn w =
           (None, w\<lparr>calls := Suc (calls w),
                     trace := trace w @
                       [DescribeDatasetImportJob arn, Update (Status r), Sleep 10]\<rparr>)
         \<and> (\<forall>n. calls w + 2 \<le> calls (snd (poll_passes (n + 2) describe arn w)) \<and>
                (\<exists>tr. trace (snd (poll_passes (n + 2) describe arn w)) =
                   trace w @ [DescribeDatasetImportJob arn, Update (Status r), Sleep 10,
                              DescribeDatasetImportJob arn] @ tr))
         \<and> (\<forall>y. (poll_loop describe arn w = Some y) =
                  (\<exists>n. poll_passes n describe arn w = (Some (fst y), snd y)))
         \<and> poll_loop describe arn w =
           poll_loop describe arn
             (w\<lparr>calls := Suc (calls w),
                trace := trace w @
                  [DescribeDatasetImportJob arn, Update (Status r), Sleep 10]\<rparr>)
         \<and> (\<forall>y. poll_loop describe arn w = Some y \<longrightarrow>
               calls w + 2 \<le> calls (snd y) \<and>
               (\<exists>tr. trace (snd y) =
                  trace w @ [DescribeDatasetImportJob arn, Update (Status r), Sleep 10,
                             DescribeDatasetImportJob arn] @ tr))"
proof -
  let ?w = "w\<lparr>calls := Suc (calls w),
               trace := trace w @
                 [DescribeDatasetImportJob arn, Update (Status r), Sleep 10]\<rparr>"
  have other: "Status r \<notin> set [''ACTIVE'', ''CREATE_FAILED'']"
    using assms(2,3) by simp
  have slept: "emit (Sleep 10) (emit (Update (Status r)) (describe_call arn w)) = ?w"
    by (simp add: describe_call_def emit_def)
  have pass: "poll_passes (Suc n) describe arn w = poll_passes n describe arn ?w" for n
    using assms(1) other slept by simp
  have one: "poll_passes 1 describe arn w = (None, ?w)"
    using pass [of 0] by simp
  have again: "calls w + 2 \<le> calls (snd (poll_passes (n + 2) describe arn w)) \<and>
         (\<exists>tr. trace (snd (poll_passes (n + 2) describe arn w)) =
            trace w @ [DescribeDatasetImportJob arn, Update (Status r), Sleep 10,
                       DescribeDatasetImportJob arn] @ tr)" for n
  proof -
    have eq: "poll_passes (n + 2) describe arn w = poll_passes (Suc n) describe arn ?w"
      using pass [of "Suc n"] by simp
    let ?d = "describe_call arn ?w"
    have first: "calls ?d \<le> calls (snd (poll_passes (Suc n) describe arn ?w)) \<and>
          (\<exists>tr. trace (snd (poll_passes (Suc n) describe arn ?w)) = trace ?d @ tr)"
    proof (cases "describe (calls ?w)")
      case (Raises e)
      then show ?thesis by simp
    next
      case (Returns r')
      show ?thesis
      proof (cases "Status r' \<in> set [''ACTIVE'', ''CREATE_FAILED'']")
        case True
        with Returns show ?thesis by (simp add: emit_def)
      next
        case False
        let ?w' = "emit (Sleep 10) (emit (Update (Status r')) ?d)"
        from Returns False
        have eq': "poll_passes (Suc n) describe arn ?w = poll_passes n describe arn ?w'"
          by simp
        from poll_passes_grows [of ?w' n describe arn] obtain tr where
          "calls ?w' \<le> calls (snd (poll_passes n describe arn ?w'))"
          "trace (snd (poll_passes n describe arn ?w')) = trace ?w' @ tr"
          by blast
        then show ?thesis
          unfolding eq' by (simp add: emit_def)
      qed
    qed
    then obtain tr where
      "calls ?d \<le> calls (snd (poll_passes (Suc n) describe arn ?w))"
      "trace (snd (poll_passes (Suc n) describe arn ?w)) = trace ?d @ tr"
      by blast
    then show ?thesis
      unfolding eq by (simp add: describe_call_def)
  qed
  have link: "(poll_loop describe arn w = Some y) =
              (\<exists>n. poll_passes n describe arn w = (Some (fst y), snd y))" for y
  proof
    assume "poll_loop describe arn w = Some y"
    then show "\<exists>n. poll_passes n describe arn w = (Some (fst y), snd y)"
      by (rule poll_loop_passes)
  next
    assume "\<exists>n. poll_passes n describe arn w = (Some (fst y), snd y)"
    then obtain n where "poll_passes n describe arn w = (Some (fst y), snd y)" ..
    then have "poll_loop describe arn w = Some (fst y, snd y)"
      by (rule poll_passes_finished)
    then show "poll_loop describe arn w = Some y" by simp
  qed
  have step: "poll_loop describe arn w = poll_loop describe arn ?w"
    using assms(1) other by (rule poll_loop_continue)
  have ended: "calls w + 2 \<le> calls (snd y) \<and>
        (\<exists>tr. trace (snd y) =
            trace w @ [DescribeDatasetImportJob arn, Update (Status r), Sleep 10,
                       DescribeDatasetImportJob arn] @ tr)"
    if "poll_loop describe arn w = Some y" for y
  proof -
    from that step have "poll_loop describe arn ?w = Some y"
      by simp
    from poll_loop_sound [OF this] show ?thesis
      by auto
  qed
  from one again link step ended show ?thesis
    by blast
qed

text \<open>
  The theorem on a job that stays in \<open>CREATE_IN_PROGRESS\<close> for ever: after one pass the
  loop is still running and has slept.
\<close>

theorem poll_loop_other_state_continues_witness:
  "poll_passes 1
     (scripted [] (Returns \<lparr>Status = ''CREATE_IN_PROGRESS'', raw = ''a''\<rparr>))
     ''arn'' \<lparr>calls = 0, trace = []\<rparr> =
   (None,
    \<lparr>calls = 1,
     trace = [DescribeDatasetImportJob ''arn'', Update ''CREATE_IN_PROGRESS'', Sleep 10]\<rparr>)"
  using poll_loop_other_state_continues
    [of "scripted [] (Returns \<lparr>Status = ''CREATE_IN_PROGRESS'', raw = ''a''\<rparr>)"
        "\<lparr>calls = 0, trace = []\<rparr>" "\<lparr>Status = ''CREATE_IN_PROGRESS'', raw = ''a''\<rparr>" "''arn''",
     THEN conjunct1]
  by (simp add: scripted_def)

section \<open>The import cells: two creates, then two waits\<close>

lemma poll_cell_first_terminal:
  assumes "1 \<le> N"
      and "\<forall>i<N - 1. \<exists>r. describe i = Returns r \<and> Status r \<notin> set [''ACTIVE'', ''CREATE_FAILED'']"
      and "describe (N - 1) = Returns snap"
      and "Status snap \<in> set [''ACTIVE'', ''CREATE_FAILED'']"
  shows "poll_cell describe arn tr =
         Some (Inr (Status snap),
               tr @ [NewIndicator] @ pending describe arn (N - 1) @
               [DescribeDatasetImportJob arn, Update (Status snap), End])"
proof -
  have "poll_loop describe arn \<lparr>calls = 0, trace = tr @ [NewIndicator]\<rparr> =
         Some (Inr (Status snap),
               \<lparr>calls = N,
                trace = (tr @ [NewIndicator]) @ pending describe arn (N - 1) @
                        [DescribeDatasetImportJob arn, Update (Status snap)]\<rparr>)"
    using assms by (rule poll_loop_first_terminal)
  then show ?thesis
    by (simp add: poll_cell_def)
qed

text \<open>
  Claim C9, as the code has it. When both create calls answer with an ARN and each job
  reaches \<open>ACTIVE\<close> or \<open>CREATE_FAILED\<close> (the first at its \<open>N1\<close>-th poll, the second at its
  \<open>N2\<close>-th), the cells issue both create calls first, then run the whole polling loop of
  the first job, then the whole polling loop of the second: the waits are sequential,
  but the second create call does not wait for the first job.
\<close>

theorem import_cells_trace:
  assumes "create_dataset_import_job svc tts_import_name = Returns tts_arn"
      and "create_dataset_import_job svc rts_import_name = Returns rts_arn"
      and "1 \<le> N1"
      and "\<forall>i<N1 - 1. \<exists>r. describe_dataset_import_job svc tts_arn i = Returns r \<and>
                         Status r \<notin> set [''ACTIVE'', ''CREATE_FAILED'']"
      and "describe_dataset_import_job svc tts_arn (N1 - 1) = Returns snap1"
      and "Status snap1 \<in> set [''ACTIVE'', ''CREATE_FAILED'']"
      and "1 \<le> N2"
      and "\<forall>i<N2 - 1. \<exists>r. describe_dataset_import_job svc rts_arn i = Returns r \<and>
                         Status r \<notin> set [''ACTIVE'', ''CREATE_FAILED'']"
      and "describe_dataset_import_job svc rts_arn (N2 - 1) = Returns snap2"
      and "Status snap2 \<in> set [''ACTIVE'', ''CREATE_FAILED'']"
  shows "import_cells svc =
         Some (Inr (Status snap1, Status snap2),
               [CreateDatasetImportJob tts_import_name, CreateDatasetImportJob rts_import_name] @
               [NewIndicator] @
               pending (describe_dataset_import_job svc tts_arn) tts_arn (N1 - 1) @
               [DescribeDatasetImportJob tts_arn, Update (Status snap1), End] @
               [NewIndicator] @
               pending (describe_dataset_import_job svc rts_arn) rts_arn (N2 - 1) @
               [DescribeDatasetImportJob rts_arn, Update (Status snap2), End])"
proof -
  have first: "poll_cell (describe_dataset_import_job svc tts_arn) tts_arn tr =
         Some (Inr (Status snap1),
               tr @ [NewIndicator] @
               pending (describe_dataset_import_job svc tts_arn) tts_arn (N1 - 1) @
               [DescribeDatasetImportJob tts_arn, Update (Status snap1), End])" for tr
    using assms(3,4,5,6) by (rule poll_cell_first_terminal)
  have second: "poll_cell (describe_dataset_import_job svc rts_arn) rts_arn tr =
         Some (Inr (Status snap2),
               tr @ [NewIndicator] @
               pending (describe_dataset_import_job svc rts_arn) rts_arn (N2 - 1) @
               [DescribeDatasetImportJob rts_arn, Update (Status snap2), End])" for tr
    using assms(7,8,9,10) by (rule poll_cell_first_terminal)
  show ?thesis
    by (simp add: import_cells_def assms(1,2) first second)
qed

text \<open>The theorem on the service whose jobs are \<open>ACTIVE\<close> at the first poll.\<close>

theorem import_cells_trace_witness:
  "import_cells eager_service =
   Some (Inr (''ACTIVE'', ''ACTIVE''),
         [CreateDatasetImportJob tts_import_name, CreateDatasetImportJob rts_import_name,
          NewIndicator,
          DescribeDatasetImportJob (''arn/'' @ tts_import_name), Update ''ACTIVE'', End,
          NewIndicator,
          DescribeDatasetImportJob (''arn/'' @ rts_import_name), Update ''ACTIVE'', End])"
  using import_cells_trace
    [of eager_service "''arn/'' @ tts_import_name" "''arn/'' @ rts_import_name" 1
        "\<lparr>Status = ''ACTIVE'', raw = ''arn/'' @ tts_import_name\<rparr>" 1
        "\<lparr>Status = ''ACTIVE'', raw = ''arn/'' @ rts_import_name\<rparr>"]
  by (simp add: eager_service_def pending_def)

text \<open>
  Claim C9 as stated has the create call and the wait of the earlier resource both
  complete before the create call of the later one. In the run below the create call of
  the second import job is the second event, and the first describe call for the first
  job comes only after it.
\<close>

theorem import_cells_counterexample:
  "import_cells eager_service =
     Some (Inr (''ACTIVE'', ''ACTIVE''),
         [CreateDatasetImportJob tts_import_name, CreateDatasetImportJob rts_import_name,
          NewIndicator,
          DescribeDatasetImportJob (''arn/'' @ tts_import_name), Update ''ACTIVE'', End,
          NewIndicator,
          DescribeDatasetImportJob (''arn/'' @ rts_import_name), Update ''ACTIVE'', End])
   \<and> index_of (CreateDatasetImportJob rts_import_name)
        (snd (the (import_cells eager_service))) = 1
   \<and> index_of (DescribeDatasetImportJob (''arn/'' @ tts_import_name))
        (snd (the (import_cells eager_service))) = 3"
  by (simp add: import_cells_def eager_service_def poll_cell_def poll_loop.simps
        describe_call_def emit_def index_of_def tts_import_name_def rts_import_name_def
        project_def)

section \<open>The order of create and delete calls\<close>






end
